theory Spec2Isabelle
  imports Main
begin

section \<open>Data model (types.ts)\<close>

text \<open>
  Numbers are modelled as mathematical integers (the application only produces integer
  capacities and flows). The one non-finite number of the program is the \<open>Infinity\<close>
  that \<open>clearLabels\<close> installs as the flow of the source's label, so the flow of a
  label is an integer or \<open>Infinity\<close>. The optional booleans \<open>isSource\<close> and
  \<open>isSink\<close> are only ever tested for truthiness, so \<open>undefined\<close> and
  \<open>false\<close> are both \<open>False\<close>.
\<close>

datatype lnum = Fin int | Infinity

datatype dir = Plus | Minus

record label =
  prevNodeId :: "string option"
  direction :: dir
  lflow :: lnum

record node =
  node_id :: string
  node_x :: int
  node_y :: int
  label :: "label option"
  isSource :: bool
  isSink :: bool

record edge =
  edge_id :: string
  source :: string
  target :: string
  capacity :: int
  flow :: int

record graph =
  nodes :: "node list"
  edges :: "edge list"

datatype AlgorithmPhase = IDLE | LABELING | AUGMENTING | FINISHED

text \<open>
  The log lines are fixed Chinese sentences with numbers and node ids spliced in. A log
  entry is modelled by the sentence it instantiates together with the spliced values.
\<close>

datatype logline =
    LogInitialized
  | LogStartLabeling
  | LogFinished int
  | LogSinkLabeled "int option"
  | LogChecked string
  | LogAugmented int int

record state =
  phase :: AlgorithmPhase
  queue :: "string list"
  pathFound :: "string list option"
  bottleneck :: "int option"
  visited :: "string set"
  maxFlow :: int
  logs :: "logline list"

text \<open>
  A call either returns a value or throws the \<open>TypeError\<close> of reading a property of
  \<open>undefined\<close>. A call that never returns is \<open>None\<close> one level above.
\<close>

datatype 'a result = Returns 'a | TypeError

definition bindR :: "'a result option \<Rightarrow> ('a \<Rightarrow> 'b result option) \<Rightarrow> 'b result option" where
  "bindR m f = (case m of None \<Rightarrow> None | Some TypeError \<Rightarrow> Some TypeError | Some (Returns a) \<Rightarrow> f a)"

section \<open>The engine (services/maxFlowAlgorithm.ts)\<close>

text \<open>\<open>Array.prototype.findIndex\<close>: the first index whose element satisfies the test.\<close>

fun findIndex :: "('a \<Rightarrow> bool) \<Rightarrow> 'a list \<Rightarrow> nat option" where
  "findIndex P [] = None"
| "findIndex P (x # xs) = (if P x then Some 0 else map_option Suc (findIndex P xs))"

text \<open>The helper \<open>findEdge\<close>: the first edge between \<open>u\<close> and \<open>v\<close>, in either direction.\<close>

definition findEdge :: "edge list \<Rightarrow> string \<Rightarrow> string \<Rightarrow> edge option" where
  "findEdge es u v = find (\<lambda>e. (source e = u \<and> target e = v) \<or> (source e = v \<and> target e = u)) es"

definition initializeAlgorithm :: state where
  "initializeAlgorithm =
     \<lparr>phase = IDLE, queue = [], pathFound = None, bottleneck = None, visited = {},
      maxFlow = 0, logs = [LogInitialized]\<rparr>"

definition clearLabels :: "node list \<Rightarrow> node list" where
  "clearLabels ns =
     map (\<lambda>n. n\<lparr>label := (if isSource n
                             then Some \<lparr>prevNodeId = None, direction = Plus, lflow = Infinity\<rparr>
                             else None)\<rparr>) ns"

text \<open>\<open>Math.min(u.label.flow, flowAvailable)\<close> with a finite second argument.\<close>

fun minFlow :: "lnum \<Rightarrow> int \<Rightarrow> int" where
  "minFlow Infinity a = a"
| "minFlow (Fin f) a = min f a"

text \<open>
  The backtracking loop of \<open>labelNode\<close>:
  \<^verbatim>\<open>while (curr.id !== 's') { prevId = curr.label!.prevNodeId!; path.unshift(prevId);
                            curr = newNodes.find(n => n.id === prevId)!; }\<close>
  The current node is \<open>None\<close> when \<open>find\<close> returned \<open>undefined\<close>; reading \<open>curr.id\<close> or
  \<open>curr.label.prevNodeId\<close> then throws. When \<open>prevNodeId\<close> is \<open>null\<close>, no node id
  equals it, \<open>find\<close> yields \<open>undefined\<close> and the next test of the loop throws. The loop
  need not end, so it is a partial function: \<open>None\<close> is a run that never returns.
\<close>

partial_function (option) backtrack :: "node list \<Rightarrow> node option \<Rightarrow> string list \<Rightarrow> string list result option" where
  "backtrack ns cur path =
     (case cur of
        None \<Rightarrow> Some TypeError
      | Some c \<Rightarrow>
          if node_id c = ''s'' then Some (Returns path)
          else (case label c of
                  None \<Rightarrow> Some TypeError
                | Some l \<Rightarrow>
                    (case prevNodeId l of
                       None \<Rightarrow> Some TypeError
                     | Some prevId \<Rightarrow>
                         backtrack ns (find (\<lambda>n. node_id n = prevId) ns) (prevId # path))))"

declare backtrack.simps [code]

text \<open>The variables that \<open>labelNode\<close> and the two \<open>forEach\<close> loops mutate.\<close>

record lstate =
  newNodes :: "node list"
  newQueue :: "string list"
  newVisited :: "string set"
  neighborsFound :: bool
  sinkReached :: bool
  newPath :: "string list option"
  newBottleneck :: "int option"

text \<open>
  \<open>labelNode\<close>; \<open>u\<close> is the result of \<open>nodes.find(n => n.id === uId)\<close> on the
  input graph, \<open>None\<close> for \<open>undefined\<close>.
\<close>

definition labelNode :: "string \<Rightarrow> node option \<Rightarrow> lstate \<Rightarrow> string \<Rightarrow> dir \<Rightarrow> int \<Rightarrow> lstate result option" where
  "labelNode uId u ls targetId d flowAvailable =
     (case findIndex (\<lambda>n. node_id n = targetId) (newNodes ls) of
        None \<Rightarrow> Some (Returns ls)
      | Some targetIndex \<Rightarrow>
          if targetId \<in> newVisited ls then Some (Returns ls)
          else (case u of
                  None \<Rightarrow> Some TypeError
                | Some un \<Rightarrow>
                    (case label un of
                       None \<Rightarrow> Some TypeError
                     | Some ul \<Rightarrow>
                         let m = minFlow (lflow ul) flowAvailable;
                             tn = (newNodes ls ! targetIndex)
                                    \<lparr>label := Some \<lparr>prevNodeId = Some uId, direction = d, lflow = Fin m\<rparr>\<rparr>;
                             ns' = (newNodes ls)[targetIndex := tn];
                             ls' = ls\<lparr>newNodes := ns',
                                      newVisited := insert targetId (newVisited ls),
                                      newQueue := newQueue ls @ [targetId],
                                      neighborsFound := True\<rparr>
                         in if isSink tn
                            then bindR (backtrack ns' (Some tn) [targetId])
                                   (\<lambda>path. Some (Returns (ls'\<lparr>sinkReached := True,
                                                                newPath := Some path,
                                                                newBottleneck := Some m\<rparr>)))
                            else Some (Returns ls'))))"

text \<open>The forward check, over \<open>edges.filter(e => e.source === uId)\<close>.\<close>

fun forwardCheck :: "string \<Rightarrow> node option \<Rightarrow> edge list \<Rightarrow> lstate \<Rightarrow> lstate result option" where
  "forwardCheck uId u [] ls = Some (Returns ls)"
| "forwardCheck uId u (e # es) ls =
     (if \<not> sinkReached ls \<and> flow e < capacity e
      then bindR (labelNode uId u ls (target e) Plus (capacity e - flow e)) (forwardCheck uId u es)
      else forwardCheck uId u es ls)"

text \<open>The backward check, over \<open>edges.filter(e => e.target === uId)\<close>.\<close>

fun backwardCheck :: "string \<Rightarrow> node option \<Rightarrow> edge list \<Rightarrow> lstate \<Rightarrow> lstate result option" where
  "backwardCheck uId u [] ls = Some (Returns ls)"
| "backwardCheck uId u (e # es) ls =
     (if \<not> sinkReached ls \<and> flow e > 0
      then bindR (labelNode uId u ls (source e) Minus (flow e)) (backwardCheck uId u es)
      else backwardCheck uId u es ls)"

text \<open>One pass of the \<open>for\<close> loop of the augmenting phase, for the pair \<open>(uId, vId)\<close>.\<close>

definition augmentPair :: "edge list \<Rightarrow> string \<Rightarrow> string \<Rightarrow> int \<Rightarrow> edge list" where
  "augmentPair newEdges uId vId b =
     (case findIndex (\<lambda>e. source e = uId \<and> target e = vId) newEdges of
        Some forwardIdx \<Rightarrow>
          newEdges[forwardIdx := (newEdges ! forwardIdx)\<lparr>flow := flow (newEdges ! forwardIdx) + b\<rparr>]
      | None \<Rightarrow>
          (case findIndex (\<lambda>e. source e = vId \<and> target e = uId) newEdges of
             Some backwardIdx \<Rightarrow>
               newEdges[backwardIdx := (newEdges ! backwardIdx)\<lparr>flow := flow (newEdges ! backwardIdx) - b\<rparr>]
           | None \<Rightarrow> newEdges))"

text \<open>The loop \<open>for (i = 0; i < pathFound.length - 1; i++)\<close> over consecutive pairs.\<close>

fun augmentLoop :: "edge list \<Rightarrow> string list \<Rightarrow> int \<Rightarrow> edge list" where
  "augmentLoop newEdges (uId # vId # rest) b = augmentLoop (augmentPair newEdges uId vId b) (vId # rest) b"
| "augmentLoop newEdges [uId] b = newEdges"
| "augmentLoop newEdges [] b = newEdges"

definition stepAlgorithm :: "graph \<Rightarrow> state \<Rightarrow> (graph \<times> state) result option" where
  "stepAlgorithm currentGraph currentState =
     (if phase currentState = IDLE \<or> phase currentState = FINISHED then
        (let newNodes = clearLabels (nodes currentGraph) in
         case find isSource newNodes of
           None \<Rightarrow> Some (Returns (currentGraph, currentState))
         | Some src \<Rightarrow>
             Some (Returns
               (currentGraph\<lparr>nodes := newNodes\<rparr>,
                currentState\<lparr>phase := LABELING,
                              queue := [node_id src],
                              visited := {node_id src},
                              pathFound := None,
                              bottleneck := None,
                              logs := logs currentState @ [LogStartLabeling]\<rparr>)))
      else if phase currentState = LABELING then
        (case queue currentState of
           [] \<Rightarrow>
             Some (Returns
               (currentGraph,
                currentState\<lparr>phase := FINISHED,
                              logs := logs currentState @ [LogFinished (maxFlow currentState)]\<rparr>))
         | uId # rest \<Rightarrow>
             (let u = find (\<lambda>n. node_id n = uId) (nodes currentGraph);
                  ls0 = \<lparr>newNodes = nodes currentGraph, newQueue = rest,
                         newVisited = visited currentState, neighborsFound = False,
                         sinkReached = False, newPath = None, newBottleneck = None\<rparr>
              in bindR (forwardCheck uId u (filter (\<lambda>e. source e = uId) (edges currentGraph)) ls0)
                   (\<lambda>ls1. bindR (backwardCheck uId u (filter (\<lambda>e. target e = uId) (edges currentGraph)) ls1)
                     (\<lambda>ls. if sinkReached ls then
                              Some (Returns
                                (currentGraph\<lparr>nodes := newNodes ls\<rparr>,
                                 currentState\<lparr>phase := AUGMENTING,
                                               queue := [],
                                               pathFound := newPath ls,
                                               bottleneck := newBottleneck ls,
                                               visited := newVisited ls,
                                               logs := logs currentState
                                                         @ [LogSinkLabeled (newBottleneck ls)]\<rparr>))
                            else
                              Some (Returns
                                (currentGraph\<lparr>nodes := newNodes ls\<rparr>,
                                 currentState\<lparr>queue := newQueue ls,
                                               visited := newVisited ls,
                                               logs := (if neighborsFound ls
                                                        then logs currentState @ [LogChecked uId]
                                                        else logs currentState)\<rparr>))))))
      else if phase currentState = AUGMENTING then
        (case pathFound currentState of
           None \<Rightarrow> Some (Returns (currentGraph, currentState))
         | Some p \<Rightarrow>
             (case bottleneck currentState of
                None \<Rightarrow> Some (Returns (currentGraph, currentState))
              | Some b \<Rightarrow>
                  Some (Returns
                    (currentGraph\<lparr>edges := augmentLoop (edges currentGraph) p b\<rparr>,
                     currentState\<lparr>phase := IDLE,
                                   maxFlow := maxFlow currentState + b,
                                   pathFound := None,
                                   bottleneck := None,
                                   logs := logs currentState
                                             @ [LogAugmented b (maxFlow currentState + b)]\<rparr>))))
      else Some (Returns (currentGraph, currentState)))"

section \<open>Runs of the engine\<close>

text \<open>
  The caller feeds the pair returned by one call into the next call. \<open>stepN n\<close> is a
  run of \<open>n\<close> calls; it throws, or fails to return, as soon as one call does.
\<close>

fun stepN :: "nat \<Rightarrow> graph \<Rightarrow> state \<Rightarrow> (graph \<times> state) result option" where
  "stepN 0 g st = Some (Returns (g, st))"
| "stepN (Suc n) g st = bindR (stepAlgorithm g st) (\<lambda>(g', st'). stepN n g' st')"

section \<open>Notions used by the properties\<close>

text \<open>A node without its label and an edge without its flow: what the topology consists of.\<close>

definition unlabeled :: "node \<Rightarrow> node" where
  "unlabeled n = n\<lparr>label := None\<rparr>"

definition unflowed :: "edge \<Rightarrow> edge" where
  "unflowed e = e\<lparr>flow := 0\<rparr>"











text \<open>The capacity invariant \<open>0 \<le> flow \<le> capacity\<close> on every edge.\<close>

definition capacityOk :: "graph \<Rightarrow> bool" where
  "capacityOk g = list_all (\<lambda>e. 0 \<le> flow e \<and> flow e \<le> capacity e) (edges g)"

text \<open>
  The residual capacity that the step from \<open>a\<close> to \<open>b\<close> of a path has: that of the
  first forward residual edge \<open>a \<rightarrow> b\<close>, else that of the first backward residual edge
  \<open>b \<rightarrow> a\<close>.
\<close>

definition pairResidual :: "edge list \<Rightarrow> string \<Rightarrow> string \<Rightarrow> int option" where
  "pairResidual es a b =
     (case find (\<lambda>e. source e = a \<and> target e = b \<and> flow e < capacity e) es of
        Some e \<Rightarrow> Some (capacity e - flow e)
      | None \<Rightarrow>
          (case find (\<lambda>e. source e = b \<and> target e = a \<and> 0 < flow e) es of
             Some e \<Rightarrow> Some (flow e)
           | None \<Rightarrow> None))"

text \<open>The capacity of the cut that separates the node ids in \<open>S\<close> from the others.\<close>

definition cutCapacity :: "graph \<Rightarrow> string set \<Rightarrow> int" where
  "cutCapacity g S = sum_list (map capacity (filter (\<lambda>e. source e \<in> S \<and> target e \<notin> S) (edges g)))"

section \<open>Example networks\<close>

definition mkNode :: "string \<Rightarrow> bool \<Rightarrow> bool \<Rightarrow> node" where
  "mkNode i src snk = \<lparr>node_id = i, node_x = 0, node_y = 0, label = None, isSource = src, isSink = snk\<rparr>"

definition mkEdge :: "string \<Rightarrow> string \<Rightarrow> string \<Rightarrow> int \<Rightarrow> edge" where
  "mkEdge i s t c = \<lparr>edge_id = i, source = s, target = t, capacity = c, flow = 0\<rparr>"

text \<open>Source \<open>s\<close>, sink \<open>t\<close> and the single edge \<open>s \<rightarrow> t\<close> of capacity 5.\<close>

definition directGraph :: graph where
  "directGraph = \<lparr>nodes = [mkNode ''s'' True False, mkNode ''t'' False True],
                   edges = [mkEdge ''e1'' ''s'' ''t'' 5]\<rparr>"

text \<open>The same network after the first call: the source carries its label.\<close>

definition directLabeled :: graph where
  "directLabeled =
     \<lparr>nodes = [(mkNode ''s'' True False)
                  \<lparr>label := Some \<lparr>prevNodeId = None, direction = Plus, lflow = Infinity\<rparr>\<rparr>,
               mkNode ''t'' False True],
      edges = [mkEdge ''e1'' ''s'' ''t'' 5]\<rparr>"

definition directStarted :: state where
  "directStarted =
     \<lparr>phase = LABELING, queue = [''s''], pathFound = None, bottleneck = None,
      visited = {''s''}, maxFlow = 0, logs = [LogInitialized, LogStartLabeling]\<rparr>"

text \<open>... after the second call, which labels the sink and finds the path ...\<close>

definition directSinkLabeled :: graph where
  "directSinkLabeled =
     \<lparr>nodes = [(mkNode ''s'' True False)
                  \<lparr>label := Some \<lparr>prevNodeId = None, direction = Plus, lflow = Infinity\<rparr>\<rparr>,
               (mkNode ''t'' False True)
                  \<lparr>label := Some \<lparr>prevNodeId = Some ''s'', direction = Plus, lflow = Fin 5\<rparr>\<rparr>],
      edges = [mkEdge ''e1'' ''s'' ''t'' 5]\<rparr>"

definition directPathFound :: state where
  "directPathFound =
     \<lparr>phase = AUGMENTING, queue = [], pathFound = Some [''s'', ''t''], bottleneck = Some 5,
      visited = {''s'', ''t''}, maxFlow = 0,
      logs = [LogInitialized, LogStartLabeling, LogSinkLabeled (Some 5)]\<rparr>"

text \<open>... and after the third call, when the flow 5 has been pushed along \<open>s \<rightarrow> t\<close>.\<close>

definition directAugmented :: graph where
  "directAugmented =
     \<lparr>nodes = [(mkNode ''s'' True False)
                  \<lparr>label := Some \<lparr>prevNodeId = None, direction = Plus, lflow = Infinity\<rparr>\<rparr>,
               (mkNode ''t'' False True)
                  \<lparr>label := Some \<lparr>prevNodeId = Some ''s'', direction = Plus, lflow = Fin 5\<rparr>\<rparr>],
      edges = [(mkEdge ''e1'' ''s'' ''t'' 5)\<lparr>flow := 5\<rparr>]\<rparr>"

definition directAugmentedState :: state where
  "directAugmentedState =
     \<lparr>phase = IDLE, queue = [], pathFound = None, bottleneck = None,
      visited = {''s'', ''t''}, maxFlow = 5,
      logs = [LogInitialized, LogStartLabeling, LogSinkLabeled (Some 5), LogAugmented 5 5]\<rparr>"

text \<open>A finished engine state, and a network with a sink but no source.\<close>

definition finishedState :: state where
  "finishedState = initializeAlgorithm\<lparr>phase := FINISHED\<rparr>"

definition sinkOnlyGraph :: graph where
  "sinkOnlyGraph = \<lparr>nodes = [mkNode ''t'' False True], edges = []\<rparr>"

text \<open>Augmenting states: a path through a node \<open>q\<close> that no edge touches, and a negative bottleneck.\<close>

definition strayPathState :: state where
  "strayPathState =
     \<lparr>phase = AUGMENTING, queue = [], pathFound = Some [''q'', ''s'', ''t''], bottleneck = Some 3,
      visited = {}, maxFlow = 0, logs = []\<rparr>"



text \<open>The network the application starts with (constants.ts).\<close>

definition INITIAL_GRAPH :: graph where
  "INITIAL_GRAPH =
     \<lparr>nodes = [(mkNode ''s'' True False)\<lparr>node_x := 100, node_y := 300\<rparr>,
               (mkNode ''v1'' False False)\<lparr>node_x := 300, node_y := 150\<rparr>,
               (mkNode ''v2'' False False)\<lparr>node_x := 300, node_y := 450\<rparr>,
               (mkNode ''v3'' False False)\<lparr>node_x := 500, node_y := 150\<rparr>,
               (mkNode ''v4'' False False)\<lparr>node_x := 500, node_y := 450\<rparr>,
               (mkNode ''t'' False True)\<lparr>node_x := 700, node_y := 300\<rparr>],
      edges = [mkEdge ''e1'' ''s'' ''v1'' 10, mkEdge ''e2'' ''s'' ''v2'' 10,
               mkEdge ''e3'' ''v1'' ''v2'' 2, mkEdge ''e4'' ''v1'' ''v3'' 4,
               mkEdge ''e5'' ''v1'' ''v4'' 8, mkEdge ''e6'' ''v2'' ''v4'' 9,
               mkEdge ''e7'' ''v4'' ''v3'' 6, mkEdge ''e8'' ''v3'' ''t'' 10,
               mkEdge ''e9'' ''v4'' ''t'' 10]\<rparr>"

text \<open>
  The editor's \<open>setSource\<close> with the \<open>resetAlgo\<close> that it ends with: the node
  with the given id becomes the only source (and stops being a sink), all labels are
  removed and all flows are set to 0. The engine state is reset to the initial one.
\<close>

definition setSource :: "string \<Rightarrow> graph \<Rightarrow> graph" where
  "setSource i g =
     \<lparr>nodes = map (\<lambda>n. n\<lparr>label := None, isSource := (node_id n = i),
                            isSink := (if node_id n = i then False else isSink n)\<rparr>) (nodes g),
      edges = map (\<lambda>e. e\<lparr>flow := 0\<rparr>) (edges g)\<rparr>"

text \<open>Source \<open>a\<close>, an inner node whose id is \<open>s\<close>, sink \<open>t\<close>; the only cut edges are
  \<open>a \<rightarrow> s\<close> (capacity 1) and \<open>s \<rightarrow> t\<close> (capacity 2).\<close>

definition relayGraph :: graph where
  "relayGraph = \<lparr>nodes = [mkNode ''a'' True False, mkNode ''s'' False False, mkNode ''t'' False True],
                  edges = [mkEdge ''e1'' ''a'' ''s'' 1, mkEdge ''e2'' ''s'' ''t'' 2]\<rparr>"

text \<open>
  Source \<open>s\<close>, sink \<open>t\<close>, no two edges with the same end points in the same order,
  and the pair of opposite edges \<open>c \<rightarrow> b\<close> and \<open>b \<rightarrow> c\<close>. The edges that leave
  \<open>{s, a, b}\<close> are \<open>s \<rightarrow> c\<close>, \<open>b \<rightarrow> t\<close> and \<open>b \<rightarrow> c\<close>, each of capacity 1.
\<close>

definition crossGraph :: graph where
  "crossGraph =
     \<lparr>nodes = [mkNode ''s'' True False, mkNode ''a'' False False, mkNode ''b'' False False,
               mkNode ''c'' False False, mkNode ''d'' False False, mkNode ''t'' False True],
      edges = [mkEdge ''e1'' ''c'' ''b'' 1, mkEdge ''e2'' ''b'' ''t'' 1,
               mkEdge ''e3'' ''s'' ''c'' 1, mkEdge ''e4'' ''s'' ''a'' 3,
               mkEdge ''e5'' ''b'' ''c'' 1, mkEdge ''e6'' ''d'' ''t'' 3,
               mkEdge ''e7'' ''c'' ''d'' 3, mkEdge ''e8'' ''a'' ''b'' 3]\<rparr>"





section \<open>Lemmas\<close>

lemma bindR_Returns:
  "bindR m f = Some (Returns y) \<longleftrightarrow> (\<exists>x. m = Some (Returns x) \<and> f x = Some (Returns y))"
  by (auto simp: bindR_def split: option.splits result.splits)

lemma bindR_simps [simp]:
  "bindR None f = None" "bindR (Some TypeError) f = Some TypeError" "bindR (Some (Returns a)) f = f a"
  by (simp_all add: bindR_def)

lemma findIndex_Some:
  "findIndex P xs = Some i \<Longrightarrow> i < length xs \<and> P (xs ! i) \<and> (\<forall>j<i. \<not> P (xs ! j))"
proof (induction xs arbitrary: i)
  case Nil
  then show ?case by simp
next
  case (Cons x xs)
  show ?case
  proof (cases "P x")
    case True
    with Cons.prems show ?thesis by simp
  next
    case False
    with Cons.prems obtain k where k: "findIndex P xs = Some k" "i = Suc k" by auto
    from Cons.IH [OF k(1)] False k(2) show ?thesis
      by (auto simp: less_Suc_eq_0_disj)
  qed
qed

lemma findIndex_None: "findIndex P xs = None \<longleftrightarrow> (\<forall>x\<in>set xs. \<not> P x)"
  by (induction xs) auto

lemma labelNode_cases:
  assumes "labelNode uId u ls t d a = Some (Returns ls')"
  shows "ls' = ls \<or>
    (\<exists>i un ul. findIndex (\<lambda>n. node_id n = t) (newNodes ls) = Some i \<and> t \<notin> newVisited ls \<and>
       u = Some un \<and> label un = Some ul \<and>
       newNodes ls' = (newNodes ls)[i := (newNodes ls ! i)
            \<lparr>label := Some \<lparr>prevNodeId = Some uId, direction = d, lflow = Fin (minFlow (lflow ul) a)\<rparr>\<rparr>] \<and>
       newQueue ls' = newQueue ls @ [t] \<and> newVisited ls' = insert t (newVisited ls) \<and>
       neighborsFound ls' \<and> sinkReached ls' = (sinkReached ls \<or> isSink (newNodes ls ! i)) \<and>
       (if isSink (newNodes ls ! i)
        then newBottleneck ls' = Some (minFlow (lflow ul) a) \<and>
             (\<exists>p. newPath ls' = Some p \<and>
                backtrack (newNodes ls') (Some (newNodes ls' ! i)) [t] = Some (Returns p))
        else newBottleneck ls' = newBottleneck ls \<and> newPath ls' = newPath ls))"
  using assms
  by (auto simp: labelNode_def Let_def bindR_Returns dest: findIndex_Some split: option.splits if_splits)

lemma forwardCheck_rel:
  assumes rfl: "\<And>l. R l l"
    and trn: "\<And>a b c. R a b \<Longrightarrow> R b c \<Longrightarrow> R a c"
    and stp: "\<And>l t a l'. 0 < a \<Longrightarrow> labelNode uId u l t Plus a = Some (Returns l') \<Longrightarrow> R l l'"
    and run: "forwardCheck uId u es ls = Some (Returns ls')"
  shows "R ls ls'"
  using run
proof (induction es arbitrary: ls)
  case Nil
  then show ?case by (simp add: rfl)
next
  case (Cons e es)
  show ?case
  proof (cases "\<not> sinkReached ls \<and> flow e < capacity e")
    case True
    with Cons.prems obtain l1 where
      l1: "labelNode uId u ls (target e) Plus (capacity e - flow e) = Some (Returns l1)"
      and r: "forwardCheck uId u es l1 = Some (Returns ls')"
      by (auto simp: bindR_Returns)
    have "R ls l1" using stp [OF _ l1] True by simp
    moreover have "R l1 ls'" using Cons.IH [OF r] .
    ultimately show ?thesis by (rule trn)
  next
    case False
    with Cons.prems have "forwardCheck uId u es ls = Some (Returns ls')" by auto
    then show ?thesis by (rule Cons.IH)
  qed
qed

lemma backwardCheck_rel:
  assumes rfl: "\<And>l. R l l"
    and trn: "\<And>a b c. R a b \<Longrightarrow> R b c \<Longrightarrow> R a c"
    and stp: "\<And>l t a l'. 0 < a \<Longrightarrow> labelNode uId u l t Minus a = Some (Returns l') \<Longrightarrow> R l l'"
    and run: "backwardCheck uId u es ls = Some (Returns ls')"
  shows "R ls ls'"
  using run
proof (induction es arbitrary: ls)
  case Nil
  then show ?case by (simp add: rfl)
next
  case (Cons e es)
  show ?case
  proof (cases "\<not> sinkReached ls \<and> 0 < flow e")
    case True
    with Cons.prems obtain l1 where
      l1: "labelNode uId u ls (source e) Minus (flow e) = Some (Returns l1)"
      and r: "backwardCheck uId u es l1 = Some (Returns ls')"
      by (auto simp: bindR_Returns)
    have "R ls l1" using stp [OF _ l1] True by simp
    moreover have "R l1 ls'" using Cons.IH [OF r] .
    ultimately show ?thesis by (rule trn)
  next
    case False
    with Cons.prems have "backwardCheck uId u es ls = Some (Returns ls')" by auto
    then show ?thesis by (rule Cons.IH)
  qed
qed

text \<open>Both loops of a labeling step, composed.\<close>

lemma expand_rel:
  assumes rfl: "\<And>l. R l l"
    and trn: "\<And>a b c. R a b \<Longrightarrow> R b c \<Longrightarrow> R a c"
    and stp: "\<And>l t d a l'. 0 < a \<Longrightarrow> labelNode uId u l t d a = Some (Returns l') \<Longrightarrow> R l l'"
    and run: "bindR (forwardCheck uId u fs ls) (backwardCheck uId u bs) = Some (Returns ls')"
  shows "R ls ls'"
proof -
  from run obtain l1 where f: "forwardCheck uId u fs ls = Some (Returns l1)"
    and b: "backwardCheck uId u bs l1 = Some (Returns ls')"
    by (auto simp: bindR_Returns)
  have "R ls l1" by (rule forwardCheck_rel [where R = R, OF rfl trn stp f])
  moreover have "R l1 ls'" by (rule backwardCheck_rel [where R = R, OF rfl trn stp b])
  ultimately show ?thesis by (rule trn)
qed

lemma stepAlgorithm_LABELING:
  assumes "phase st = LABELING" "queue st = uId # rest"
    and "stepAlgorithm g st = Some (Returns (g', st'))"
  shows "\<exists>ls. bindR (forwardCheck uId (find (\<lambda>n. node_id n = uId) (nodes g))
                       (filter (\<lambda>e. source e = uId) (edges g))
                       \<lparr>newNodes = nodes g, newQueue = rest, newVisited = visited st,
                        neighborsFound = False, sinkReached = False, newPath = None,
                        newBottleneck = None\<rparr>)
                 (backwardCheck uId (find (\<lambda>n. node_id n = uId) (nodes g))
                       (filter (\<lambda>e. target e = uId) (edges g))) = Some (Returns ls) \<and>
          g' = g\<lparr>nodes := newNodes ls\<rparr> \<and>
          st' = (if sinkReached ls
                 then st\<lparr>phase := AUGMENTING, queue := [], pathFound := newPath ls,
                         bottleneck := newBottleneck ls, visited := newVisited ls,
                         logs := logs st @ [LogSinkLabeled (newBottleneck ls)]\<rparr>
                 else st\<lparr>queue := newQueue ls, visited := newVisited ls,
                         logs := (if neighborsFound ls then logs st @ [LogChecked uId] else logs st)\<rparr>)"
proof -
  let ?u = "find (\<lambda>n. node_id n = uId) (nodes g)"
  let ?r = "bindR (forwardCheck uId ?u (filter (\<lambda>e. source e = uId) (edges g))
                       \<lparr>newNodes = nodes g, newQueue = rest, newVisited = visited st,
                        neighborsFound = False, sinkReached = False, newPath = None,
                        newBottleneck = None\<rparr>)
                 (backwardCheck uId ?u (filter (\<lambda>e. target e = uId) (edges g)))"
  let ?k = "\<lambda>ls.
      if sinkReached ls then
        Some (Returns (g\<lparr>nodes := newNodes ls\<rparr>,
           st\<lparr>phase := AUGMENTING, queue := [], pathFound := newPath ls,
                         bottleneck := newBottleneck ls, visited := newVisited ls,
                         logs := logs st @ [LogSinkLabeled (newBottleneck ls)]\<rparr>))
      else Some (Returns (g\<lparr>nodes := newNodes ls\<rparr>,
           st\<lparr>queue := newQueue ls, visited := newVisited ls,
                         logs := (if neighborsFound ls then logs st @ [LogChecked uId] else logs st)\<rparr>))"
  have eq: "stepAlgorithm g st = bindR ?r ?k"
    unfolding stepAlgorithm_def Let_def using assms(1,2)
    by (simp add: bindR_def split: option.splits result.splits)
  from assms(3) have "bindR ?r ?k = Some (Returns (g', st'))" by (simp only: eq)
  then obtain ls where r: "?r = Some (Returns ls)" and x: "?k ls = Some (Returns (g', st'))"
    using bindR_Returns [of ?r ?k "(g', st')"] by blast
  show ?thesis
  proof (cases "sinkReached ls")
    case True
    with x have "g' = g\<lparr>nodes := newNodes ls\<rparr>" and "st' = st\<lparr>phase := AUGMENTING, queue := [], pathFound := newPath ls,
                         bottleneck := newBottleneck ls, visited := newVisited ls,
                         logs := logs st @ [LogSinkLabeled (newBottleneck ls)]\<rparr>" by simp_all
    with r True show ?thesis by (intro exI [of _ ls]) simp
  next
    case False
    with x have "g' = g\<lparr>nodes := newNodes ls\<rparr>" and "st' = st\<lparr>queue := newQueue ls, visited := newVisited ls,
                         logs := (if neighborsFound ls then logs st @ [LogChecked uId] else logs st)\<rparr>" by simp_all
    with r False show ?thesis by (intro exI [of _ ls]) simp
  qed
qed

lemma unlabeled_update: "i < length ns \<Longrightarrow> map unlabeled (ns[i := (ns ! i)\<lparr>label := l\<rparr>]) = map unlabeled ns"
  by (rule nth_equalityI) (simp_all add: unlabeled_def nth_list_update)

lemma labelNode_Returns [consumes 1, case_names skip lab]:
  assumes "labelNode uId u ls t d a = Some (Returns ls')"
  obtains (skip) "ls' = ls"
  | (lab) i un ul where
      "findIndex (\<lambda>n. node_id n = t) (newNodes ls) = Some i" "t \<notin> newVisited ls"
      "u = Some un" "label un = Some ul"
      "newNodes ls' = (newNodes ls)[i := (newNodes ls ! i)
            \<lparr>label := Some \<lparr>prevNodeId = Some uId, direction = d, lflow = Fin (minFlow (lflow ul) a)\<rparr>\<rparr>]"
      "newQueue ls' = newQueue ls @ [t]" "newVisited ls' = insert t (newVisited ls)"
      "neighborsFound ls'" "sinkReached ls' = (sinkReached ls \<or> isSink (newNodes ls ! i))"
      "if isSink (newNodes ls ! i)
        then newBottleneck ls' = Some (minFlow (lflow ul) a) \<and>
             (\<exists>p. newPath ls' = Some p \<and>
                backtrack (newNodes ls') (Some (newNodes ls' ! i)) [t] = Some (Returns p))
        else newBottleneck ls' = newBottleneck ls \<and> newPath ls' = newPath ls"
  using labelNode_cases [OF assms]
  apply (elim disjE exE conjE)
   apply (erule skip)
  apply (rule lab; assumption)
  done

lemma labelNode_unlabeled:
  assumes "labelNode uId u l t d a = Some (Returns l')"
  shows "map unlabeled (newNodes l') = map unlabeled (newNodes l)"
  using assms
proof (cases rule: labelNode_Returns)
  case skip
  then show ?thesis by simp
next
  case (lab i un ul)
  from findIndex_Some [OF lab(1)] have "i < length (newNodes l)" by simp
  then show ?thesis by (simp only: lab(5) unlabeled_update)
qed

lemma clearLabels_unlabeled: "map unlabeled (clearLabels ns) = map unlabeled ns"
  by (simp add: clearLabels_def unlabeled_def)

lemma augmentPair_unflowed: "map unflowed (augmentPair es a b x) = map unflowed es"
proof -
  have upd: "\<And>i f. i < length es \<Longrightarrow> map unflowed (es[i := (es ! i)\<lparr>flow := f\<rparr>]) = map unflowed es"
    by (rule nth_equalityI) (simp_all add: unflowed_def nth_list_update)
  show ?thesis
    by (auto simp: augmentPair_def upd dest!: findIndex_Some split: option.splits)
qed

lemma augmentLoop_unflowed: "map unflowed (augmentLoop es p x) = map unflowed es"
  by (induction es p x rule: augmentLoop.induct) (simp_all add: augmentPair_unflowed)

lemma find_clearLabels:
  "find isSource (clearLabels ns) =
     map_option (\<lambda>n. n\<lparr>label := Some \<lparr>prevNodeId = None, direction = Plus, lflow = Infinity\<rparr>\<rparr>) (find isSource ns)"
  by (induction ns) (auto simp: clearLabels_def)

lemma find_isSource_None: "(\<forall>n\<in>set ns. \<not> isSource n) \<Longrightarrow> find isSource ns = None"
  by (induction ns) auto

lemma stepAlgorithm_start:
  "phase st = IDLE \<or> phase st = FINISHED \<Longrightarrow>
   stepAlgorithm g st =
    (case find isSource (nodes g) of
       None \<Rightarrow> Some (Returns (g, st))
     | Some src \<Rightarrow> Some (Returns (g\<lparr>nodes := clearLabels (nodes g)\<rparr>,
                       st\<lparr>phase := LABELING, queue := [node_id src], visited := {node_id src},
                          pathFound := None, bottleneck := None,
                          logs := logs st @ [LogStartLabeling]\<rparr>)))"
  by (auto simp: stepAlgorithm_def find_clearLabels split: option.splits)

lemma stepAlgorithm_exhausted:
  "phase st = LABELING \<Longrightarrow> queue st = [] \<Longrightarrow>
   stepAlgorithm g st =
     Some (Returns (g, st\<lparr>phase := FINISHED, logs := logs st @ [LogFinished (maxFlow st)]\<rparr>))"
  by (simp add: stepAlgorithm_def)

lemma stepAlgorithm_augment:
  "phase st = AUGMENTING \<Longrightarrow>
   stepAlgorithm g st =
     (case pathFound st of
        None \<Rightarrow> Some (Returns (g, st))
      | Some p \<Rightarrow>
          (case bottleneck st of
             None \<Rightarrow> Some (Returns (g, st))
           | Some b \<Rightarrow>
               Some (Returns
                 (g\<lparr>edges := augmentLoop (edges g) p b\<rparr>,
                  st\<lparr>phase := IDLE, maxFlow := maxFlow st + b, pathFound := None,
                     bottleneck := None,
                     logs := logs st @ [LogAugmented b (maxFlow st + b)]\<rparr>))))"
  by (simp add: stepAlgorithm_def)

lemma augmentLoop_split:
  "augmentLoop es (pre @ x # rest) b = augmentLoop (augmentLoop es (pre @ [x]) b) (x # rest) b"
proof (induction pre arbitrary: es)
  case Nil
  show ?case by simp
next
  case (Cons a pre)
  show ?case
  proof (cases pre)
    case Nil
    then show ?thesis by simp
  next
    case (Cons c pre')
    with Cons.IH [of "augmentPair es a c b"] show ?thesis by simp
  qed
qed

lemma findIndex_endpoints:
  assumes "map unflowed es' = map unflowed es"
  shows "findIndex (\<lambda>e. source e = x \<and> target e = y) es' = findIndex (\<lambda>e. source e = x \<and> target e = y) es"
  using assms
proof (induction es arbitrary: es')
  case Nil
  then show ?case by simp
next
  case (Cons e es)
  then obtain e' es'' where es': "es' = e' # es''" and e: "unflowed e' = unflowed e"
    and r: "map unflowed es'' = map unflowed es" by (cases es') auto
  from e have "source (unflowed e') = source (unflowed e)" "target (unflowed e') = target (unflowed e)"
    by simp_all
  then have "source e' = source e" "target e' = target e"
    by (simp_all add: unflowed_def)
  with Cons.IH [OF r] es' show ?case by simp
qed

























section \<open>The claims\<close>

subsection \<open>C1: a call in phase FINISHED\<close>

text \<open>
  C1 (as amended). The engine treats FINISHED exactly as IDLE. A call in phase FINISHED
  returns its inputs unchanged only when no node is flagged as source. Otherwise it starts
  a new labeling round: all labels are cleared, the source nodes get the sentinel label,
  the phase becomes LABELING, the queue and the visited set hold the id of the first
  source, \<open>pathFound\<close> and \<open>bottleneck\<close> are cleared and one log line is appended.
\<close>

theorem finished_restarts_labeling:
  "phase st = FINISHED \<Longrightarrow>
   stepAlgorithm g st =
    (case find isSource (nodes g) of
       None \<Rightarrow> Some (Returns (g, st))
     | Some src \<Rightarrow> Some (Returns (g\<lparr>nodes := clearLabels (nodes g)\<rparr>,
                       st\<lparr>phase := LABELING, queue := [node_id src], visited := {node_id src},
                          pathFound := None, bottleneck := None,
                          logs := logs st @ [LogStartLabeling]\<rparr>)))"
  by (simp add: stepAlgorithm_start)

theorem finished_restarts_labeling_witness:
  "phase finishedState = FINISHED \<and>
   stepAlgorithm directGraph finishedState = Some (Returns (directLabeled, directStarted))"
  using finished_restarts_labeling [of finishedState directGraph]
  by (simp add: finishedState_def directGraph_def directLabeled_def directStarted_def
      initializeAlgorithm_def mkNode_def clearLabels_def)

text \<open>
  C1 as stated fails: on the network \<open>s \<rightarrow> t\<close> a call in phase FINISHED returns a
  state in phase LABELING and a graph whose source is labeled.
\<close>

theorem finished_step_changes_state:
  "phase finishedState = FINISHED \<and>
   stepAlgorithm directGraph finishedState \<noteq> Some (Returns (directGraph, finishedState))"
  by (simp add: stepAlgorithm_start finishedState_def directGraph_def initializeAlgorithm_def
      mkNode_def)

subsection \<open>C8: no source\<close>

text \<open>
  C8. In phase IDLE or FINISHED, on a graph with no node flagged \<open>isSource\<close>, a call
  returns the input graph and the input state unchanged: the phase stays and no log line
  is appended.
\<close>

theorem no_source_is_noop:
  "phase st = IDLE \<or> phase st = FINISHED \<Longrightarrow> \<forall>n\<in>set (nodes g). \<not> isSource n \<Longrightarrow>
   stepAlgorithm g st = Some (Returns (g, st))"
  by (simp add: stepAlgorithm_start find_isSource_None)

theorem no_source_is_noop_witness:
  "phase initializeAlgorithm = IDLE \<and> list_all (\<lambda>n. \<not> isSource n) (nodes sinkOnlyGraph) \<and>
   stepAlgorithm sinkOnlyGraph initializeAlgorithm = Some (Returns (sinkOnlyGraph, initializeAlgorithm))"
  using no_source_is_noop [of initializeAlgorithm sinkOnlyGraph]
  by (simp add: initializeAlgorithm_def sinkOnlyGraph_def mkNode_def)

subsection \<open>C9: what a call changes in the graph\<close>

text \<open>
  C9 (as amended). A call never adds, removes or reorders nodes or edges: the returned node
  list is the input node list up to the labels, and the returned edge list is the input
  edge list up to the flows. The edges (and so the flows) change only in phase AUGMENTING;
  the nodes are unchanged in phase AUGMENTING and may differ, in their labels only, in the
  other phases.
\<close>

theorem step_frame:
  assumes "stepAlgorithm g st = Some (Returns (g', st'))"
  shows "map unlabeled (nodes g') = map unlabeled (nodes g) \<and>
         map unflowed (edges g') = map unflowed (edges g) \<and>
         (phase st \<noteq> AUGMENTING \<longrightarrow> edges g' = edges g) \<and>
         (phase st = AUGMENTING \<longrightarrow> nodes g' = nodes g)"
proof (cases "phase st")
  case IDLE
  with assms show ?thesis
    by (auto simp: stepAlgorithm_start clearLabels_unlabeled split: option.splits)
next
  case FINISHED
  with assms show ?thesis
    by (auto simp: stepAlgorithm_start clearLabels_unlabeled split: option.splits)
next
  case AUGMENTING
  with assms show ?thesis
    by (auto simp: stepAlgorithm_augment augmentLoop_unflowed split: option.splits)
next
  case LABELING
  show ?thesis
  proof (cases "queue st")
    case Nil
    with LABELING assms show ?thesis by (auto simp: stepAlgorithm_exhausted)
  next
    case (Cons uId rest)
    from stepAlgorithm_LABELING [OF LABELING Cons assms] obtain ls where
      run: "bindR (forwardCheck uId (find (\<lambda>n. node_id n = uId) (nodes g))
                       (filter (\<lambda>e. source e = uId) (edges g))
                       \<lparr>newNodes = nodes g, newQueue = rest, newVisited = visited st,
                        neighborsFound = False, sinkReached = False, newPath = None,
                        newBottleneck = None\<rparr>)
                 (backwardCheck uId (find (\<lambda>n. node_id n = uId) (nodes g))
                       (filter (\<lambda>e. target e = uId) (edges g))) = Some (Returns ls)"
      and g': "g' = g\<lparr>nodes := newNodes ls\<rparr>" by blast
    have "map unlabeled (newNodes ls) = map unlabeled (nodes g)"
      using expand_rel [where R = "\<lambda>a b. map unlabeled (newNodes b) = map unlabeled (newNodes a)", OF _ _ _ run]
      by (simp add: labelNode_unlabeled)
    with g' LABELING show ?thesis by simp
  qed
qed

theorem step_frame_witness:
  "stepAlgorithm directSinkLabeled directPathFound = Some (Returns (directAugmented, directAugmentedState)) \<and>
   map unlabeled (nodes directAugmented) = map unlabeled (nodes directSinkLabeled) \<and>
   map unflowed (edges directAugmented) = map unflowed (edges directSinkLabeled) \<and>
   nodes directAugmented = nodes directSinkLabeled"
proof -
  have r: "stepAlgorithm directSinkLabeled directPathFound
             = Some (Returns (directAugmented, directAugmentedState))"
    by code_simp
  from step_frame [OF r] r show ?thesis
    by (simp add: directPathFound_def)
qed

text \<open>
  C9 as stated fails: the first call, in phase IDLE, returns a graph that differs from its
  input, since the label of the source is part of the graph.
\<close>

theorem idle_step_changes_graph:
  "phase initializeAlgorithm \<noteq> AUGMENTING \<and>
   stepAlgorithm directGraph initializeAlgorithm = Some (Returns (directLabeled, directStarted)) \<and>
   directLabeled \<noteq> directGraph"
  by (simp add: stepAlgorithm_start directGraph_def directLabeled_def directStarted_def
      initializeAlgorithm_def mkNode_def clearLabels_def)

subsection \<open>C5: one expansion of the labeling search\<close>



subsection \<open>C10: a path step without an edge\<close>

text \<open>
  C10. In phase AUGMENTING with a path and a bottleneck present, the call always returns
  normally: the phase becomes IDLE, the bottleneck is added to \<open>maxFlow\<close>,
  \<open>pathFound\<close> and \<open>bottleneck\<close> are cleared and a log line is appended. A
  consecutive pair \<open>(x, y)\<close> of the path that has neither an edge \<open>x \<rightarrow> y\<close> nor an edge
  \<open>y \<rightarrow> x\<close> contributes nothing: the edges are those obtained from the pairs before it
  and the pairs after it.
\<close>

theorem augment_skips_missing_edge:
  assumes "phase st = AUGMENTING" "pathFound st = Some p" "bottleneck st = Some b"
  shows "stepAlgorithm g st =
           Some (Returns (g\<lparr>edges := augmentLoop (edges g) p b\<rparr>,
                          st\<lparr>phase := IDLE, maxFlow := maxFlow st + b, pathFound := None,
                             bottleneck := None,
                             logs := logs st @ [LogAugmented b (maxFlow st + b)]\<rparr>)) \<and>
         (\<forall>pre x y post. p = pre @ x # y # post \<and> findEdge (edges g) x y = None \<longrightarrow>
            augmentLoop (edges g) p b = augmentLoop (augmentLoop (edges g) (pre @ [x]) b) (y # post) b)"
proof (intro conjI allI impI)
  show "stepAlgorithm g st =
           Some (Returns (g\<lparr>edges := augmentLoop (edges g) p b\<rparr>,
                          st\<lparr>phase := IDLE, maxFlow := maxFlow st + b, pathFound := None,
                             bottleneck := None,
                             logs := logs st @ [LogAugmented b (maxFlow st + b)]\<rparr>))"
    using assms by (simp add: stepAlgorithm_augment)
next
  fix pre x y post
  assume h: "p = pre @ x # y # post \<and> findEdge (edges g) x y = None"
  let ?es = "augmentLoop (edges g) (pre @ [x]) b"
  have "map unflowed ?es = map unflowed (edges g)" by (rule augmentLoop_unflowed)
  then have "findIndex (\<lambda>e. source e = x \<and> target e = y) ?es = findIndex (\<lambda>e. source e = x \<and> target e = y) (edges g)"
    and "findIndex (\<lambda>e. source e = y \<and> target e = x) ?es = findIndex (\<lambda>e. source e = y \<and> target e = x) (edges g)"
    by (rule findIndex_endpoints)+
  moreover from h have "\<forall>e\<in>set (edges g). \<not> ((source e = x \<and> target e = y) \<or> (source e = y \<and> target e = x))"
    by (simp add: findEdge_def find_None_iff)
  then have "findIndex (\<lambda>e. source e = x \<and> target e = y) (edges g) = None"
    and "findIndex (\<lambda>e. source e = y \<and> target e = x) (edges g) = None"
    by (auto simp: findIndex_None)
  ultimately have "augmentPair ?es x y b = ?es" by (simp add: augmentPair_def)
  moreover have "augmentLoop (edges g) p b = augmentLoop ?es (x # y # post) b"
    using h augmentLoop_split [of "edges g" pre x "y # post" b] by simp
  ultimately show "augmentLoop (edges g) p b = augmentLoop ?es (y # post) b" by simp
qed

theorem augment_skips_missing_edge_witness:
  "phase strayPathState = AUGMENTING \<and> pathFound strayPathState = Some [''q'', ''s'', ''t''] \<and>
   bottleneck strayPathState = Some 3 \<and> findEdge (edges directGraph) ''q'' ''s'' = None \<and>
   stepAlgorithm directGraph strayPathState =
     Some (Returns (directGraph\<lparr>edges := [(mkEdge ''e1'' ''s'' ''t'' 5)\<lparr>flow := 3\<rparr>]\<rparr>,
                    strayPathState\<lparr>phase := IDLE, maxFlow := 3, pathFound := None, bottleneck := None,
                                    logs := [LogAugmented 3 3]\<rparr>))"
proof -
  have h: "phase strayPathState = AUGMENTING" "pathFound strayPathState = Some [''q'', ''s'', ''t'']"
    "bottleneck strayPathState = Some 3"
    by (simp_all add: strayPathState_def)
  have e: "findEdge (edges directGraph) ''q'' ''s'' = None"
    by (simp add: findEdge_def directGraph_def mkEdge_def)
  from augment_skips_missing_edge [OF h, of directGraph] e
  have "stepAlgorithm directGraph strayPathState =
           Some (Returns (directGraph\<lparr>edges := augmentLoop (edges directGraph) [''q'', ''s'', ''t''] 3\<rparr>,
                          strayPathState\<lparr>phase := IDLE, maxFlow := maxFlow strayPathState + 3,
                             pathFound := None, bottleneck := None,
                             logs := logs strayPathState @ [LogAugmented 3 (maxFlow strayPathState + 3)]\<rparr>))"
    and "augmentLoop (edges directGraph) [''q'', ''s'', ''t''] 3
           = augmentLoop (augmentLoop (edges directGraph) ([] @ [''q'']) 3) (''s'' # [''t'']) 3"
    by blast+
  then show ?thesis using h e
    by (simp add: strayPathState_def directGraph_def mkEdge_def augmentPair_def)
qed

subsection \<open>C7: monotonicity of the accumulated flow\<close>




subsection \<open>C3: the end of the path reconstruction\<close>

text \<open>
  C3. The claim is that the reconstruction stops at the source, whatever its id, so that
  the path starts at the source. The loop of the engine stops at the id \<open>s\<close> instead.
  On the application's initial network with the source moved to \<open>v1\<close>, the call that
  labels the sink throws; and when an inner node has the id \<open>s\<close>, the path starts at
  that node, not at the source \<open>a\<close>.
\<close>

theorem path_stops_at_id_s:
  "stepN 4 (setSource ''v1'' INITIAL_GRAPH) initializeAlgorithm = Some TypeError \<and>
   (case stepN 3 relayGraph initializeAlgorithm of
      Some (Returns (g, st)) \<Rightarrow>
        phase st = AUGMENTING \<and> pathFound st = Some [''s'', ''t''] \<and>
        map node_id (filter isSource (nodes g)) = [''a'']
    | _ \<Rightarrow> False)"
  by code_simp

subsection \<open>C4: validity of the path and of the bottleneck\<close>

text \<open>
  C4. The claim is that in phase AUGMENTING the bottleneck is the least residual capacity
  along \<open>pathFound\<close>. On the network \<open>a \<rightarrow> s \<rightarrow> t\<close> with source \<open>a\<close> the engine
  reaches phase AUGMENTING with the path \<open>[s, t]\<close> and bottleneck 1, while the only step
  of that path has residual capacity 2.
\<close>

theorem bottleneck_not_path_minimum:
  "(case stepN 3 relayGraph initializeAlgorithm of
      Some (Returns (g, st)) \<Rightarrow>
        phase st = AUGMENTING \<and> pathFound st = Some [''s'', ''t''] \<and> bottleneck st = Some 1 \<and>
        pairResidual (edges g) ''s'' ''t'' = Some 2
    | _ \<Rightarrow> False)"
  by code_simp

subsection \<open>C6: the value at termination\<close>

text \<open>
  C6. The claim is that \<open>maxFlow\<close> is the capacity of a minimum cut when FINISHED is
  reached. On the network with the opposite edges \<open>c \<rightarrow> b\<close> and \<open>b \<rightarrow> c\<close>, source
  \<open>s\<close> and all flows 0 at the start, the engine reaches FINISHED after 30 calls with
  \<open>maxFlow = 4\<close>, while the cut \<open>{s, a, b}\<close> has capacity 3. On the network
  \<open>a \<rightarrow> s \<rightarrow> t\<close> with source \<open>a\<close> it reaches FINISHED after 12 calls with
  \<open>maxFlow = 2\<close>, while the cut around the source has capacity 1.
\<close>

theorem finished_above_cut:
  "(case stepN 30 crossGraph initializeAlgorithm of
      Some (Returns (g, st)) \<Rightarrow> phase st = FINISHED \<and> maxFlow st = 4
    | _ \<Rightarrow> False) \<and>
   cutCapacity crossGraph {''s'', ''a'', ''b''} = 3 \<and>
   (case stepN 12 relayGraph initializeAlgorithm of
      Some (Returns (g, st)) \<Rightarrow> phase st = FINISHED \<and> maxFlow st = 2
    | _ \<Rightarrow> False) \<and>
   cutCapacity relayGraph {''a''} = 1"
  by code_simp

subsection \<open>C2: the capacity invariant\<close>

text \<open>
  C2. The claim is that \<open>0 \<le> flow \<le> capacity\<close> holds on every edge after every call of
  a run that starts with such flows. On the network with the opposite edges \<open>c \<rightarrow> b\<close>
  and \<open>b \<rightarrow> c\<close>, all flows 0 at the start, the twentieth call leaves flow 2 on the edge
  \<open>b \<rightarrow> c\<close> of capacity 1.
\<close>

theorem capacity_exceeded:
  "capacityOk crossGraph \<and>
   (case stepN 20 crossGraph initializeAlgorithm of
      Some (Returns (g, st)) \<Rightarrow>
        \<not> capacityOk g \<and>
        map (\<lambda>e. (source e, target e, flow e, capacity e)) (edges g) =
          [(''c'', ''b'', 1, 1), (''b'', ''t'', 1, 1), (''s'', ''c'', 1, 1), (''s'', ''a'', 2, 3),
           (''b'', ''c'', 2, 1), (''d'', ''t'', 2, 3), (''c'', ''d'', 2, 3), (''a'', ''b'', 2, 3)]
    | _ \<Rightarrow> False)"
  by code_simp

section \<open>The end-to-end scenario\<close>

text \<open>
  On the application's initial network the engine reaches FINISHED after 27 calls with
  \<open>maxFlow = 19\<close>, the capacity of the cut \<open>{s, v2}\<close>.
\<close>

lemma initial_graph_max_flow:
  "(case stepN 27 INITIAL_GRAPH initializeAlgorithm of
      Some (Returns (g, st)) \<Rightarrow> phase st = FINISHED \<and> maxFlow st = 19
    | _ \<Rightarrow> False) \<and>
   cutCapacity INITIAL_GRAPH {''s'', ''v2''} = 19"
  by code_simp

end
